theory Spec2Isabelle
  imports Complex_Main "HOL-Library.Word"
begin

unbundle bit_operations_syntax

section \<open>Binary64 arithmetic\<close>

text \<open>
  The cache returns C \<^verbatim>\<open>double\<close> values. A finite double is represented by the real
  number it denotes. Every floating-point operation of the source, and every
  conversion of an integer to \<^verbatim>\<open>double\<close>, is the exact result followed by rounding to
  the nearest binary64 value, ties to even: the default rounding of IEEE 754, which C
  follows under Annex F. The significand has 53 bits. Exponent limits are left out:
  every non-zero value this program computes lies between \<open>2\<^sup>-\<^sup>6\<^sup>4\<close> and \<open>2\<^sup>6\<^sup>4\<close>, far
  inside the normal range.
\<close>

type_synonym double = real

definition round_half_even :: "real \<Rightarrow> int" where
  "round_half_even x =
     (let f = \<lfloor>x\<rfloor>; d = x - of_int f
      in if d < 1 / 2 then f
         else if 1 / 2 < d then f + 1
         else if even f then f else f + 1)"

definition round_double :: "real \<Rightarrow> double" where
  "round_double x =
     (if x = 0 then 0
      else let e = \<lfloor>log 2 \<bar>x\<bar>\<rfloor> - 52
           in of_int (round_half_even (x / 2 powr of_int e)) * 2 powr of_int e)"

definition dmul :: "double \<Rightarrow> double \<Rightarrow> double" where
  "dmul x y = round_double (x * y)"

definition ddiv :: "double \<Rightarrow> double \<Rightarrow> double" where
  "ddiv x y = round_double (x / y)"

text \<open>Conversion of a \<^verbatim>\<open>uint64_t\<close> to \<^verbatim>\<open>double\<close> rounds to nearest.\<close>

definition u64_to_double :: "64 word \<Rightarrow> double" where
  "u64_to_double w = round_double (real (unat w))"

text \<open>
  Conversion of a non-negative \<^verbatim>\<open>double\<close> to \<^verbatim>\<open>uint64_t\<close> discards the fraction.
  C leaves the conversion undefined when the value does not fit; the one conversion in
  the source is applied to values below \<open>2\<^sup>6\<^sup>4\<close> only (lemma \<open>init_seed_unat\<close>).
\<close>

definition double_to_u64 :: "double \<Rightarrow> 64 word" where
  "double_to_u64 x = word_of_int \<lfloor>x\<rfloor>"

text \<open>\<^verbatim>\<open>UINT64_MAX\<close> of \<^verbatim>\<open>stdint.h\<close>.\<close>

definition UINT64_MAX :: "64 word" where
  "UINT64_MAX = 18446744073709551615"

text \<open>
  \<^verbatim>\<open>M_PI\<close> of \<^verbatim>\<open>math.h\<close> is the double \<^verbatim>\<open>0x400921FB54442D18\<close>; as a fraction it is
  \<open>884279719003555 / 2\<^sup>4\<^sup>8\<close>. It is \<open>\<pi>\<close> rounded to a double (lemma \<open>round_double_pi\<close>).
\<close>

definition M_PI :: double where
  "M_PI = 884279719003555 / 281474976710656"


section \<open>The quantum cache of \<^verbatim>\<open>quantum_cache.c\<close>\<close>

text \<open>
  \<^verbatim>\<open>struct quantum_cache\<close>. The member \<^verbatim>\<open>size\<close> is \<open>csize\<close> here, since \<open>size\<close> is a
  constant of HOL. The seed array is a list, which has \<open>csize\<close> entries in every
  reachable state (lemma \<open>run_inv\<close>); \<^verbatim>\<open>size_t\<close> values are natural numbers (they are
  only compared, incremented below \<open>10\<^sup>7\<close> and used as indices, so no \<^verbatim>\<open>size_t\<close>
  computation of the source wraps). The read-write lock is left out: the model is
  sequential, and every operation that takes the lock releases it before it returns.
\<close>

record quantum_cache =
  seeds :: "64 word list"
  csize :: nat
  index :: nat

text \<open>The global \<^verbatim>\<open>global_cache\<close> pointer: \<open>None\<close> is \<^verbatim>\<open>NULL\<close>.\<close>

type_synonym global_cache = "quantum_cache option"

text \<open>
  What the C library does during one call: whether the two \<^verbatim>\<open>malloc\<close> calls and
  \<^verbatim>\<open>pthread_rwlock_init\<close> succeed, and the 48-bit state \<open>X\<close> behind the \<open>i\<close>-th call
  of \<^verbatim>\<open>drand48\<close>, which returns the double \<open>X / 2\<^sup>4\<^sup>8\<close>.
\<close>

record environment =
  malloc_cache_ok :: bool
  malloc_seeds_ok :: bool
  rwlock_init_ok :: bool
  drand48 :: "nat \<Rightarrow> 48 word"

definition drand48_value :: "48 word \<Rightarrow> double" where
  "drand48_value X = real (unat X) / 2 ^ 48"

text \<open>
  \<^verbatim>\<open>struct timespec\<close> as filled by \<^verbatim>\<open>clock_gettime\<close>; both fields are 64-bit signed
  integers, kept as their bit patterns, which is what the casts to \<^verbatim>\<open>uint64_t\<close> read.
\<close>

record timespec =
  tv_sec :: "64 word"
  tv_nsec :: "64 word"

subsection \<open>\<^verbatim>\<open>quantum_cache_init\<close>\<close>

definition init_seed :: "48 word \<Rightarrow> 64 word" where
  "init_seed X = double_to_u64 (dmul (drand48_value X) (u64_to_double UINT64_MAX))"

function init_loop :: "(nat \<Rightarrow> 48 word) \<Rightarrow> nat \<Rightarrow> nat \<Rightarrow> 64 word list \<Rightarrow> 64 word list" where
  "init_loop rnd cache_size i s =
     (if i < cache_size then init_loop rnd cache_size (Suc i) (s[i := init_seed (rnd i)])
      else s)"
  by pat_completeness auto
termination
  by (relation "measure (\<lambda>(rnd, cache_size, i, s). cache_size - i)") auto

text \<open>
  The result is the return code and the new value of \<^verbatim>\<open>global_cache\<close>. The storage
  that \<^verbatim>\<open>malloc\<close> returns has \<open>cache_size\<close> slots of indeterminate content, here
  zeros; the loop overwrites every slot. A failed first \<^verbatim>\<open>malloc\<close> has already
  stored \<^verbatim>\<open>NULL\<close> in \<^verbatim>\<open>global_cache\<close>.
\<close>

definition quantum_cache_init :: "environment \<Rightarrow> global_cache \<Rightarrow> nat \<Rightarrow> int \<times> global_cache" where
  "quantum_cache_init env g cache_size =
     (if cache_size = 0 \<or> cache_size > 10000000 then (- 1, g)
      else if \<not> malloc_cache_ok env then (- 2, None)
      else if \<not> malloc_seeds_ok env then (- 2, None)
      else if \<not> rwlock_init_ok env then (- 3, None)
      else (0, Some \<lparr>seeds = init_loop (drand48 env) cache_size 0 (replicate cache_size 0),
                     csize = cache_size, index = 0\<rparr>))"

subsection \<open>\<^verbatim>\<open>quantum_cache_destroy\<close>\<close>

definition quantum_cache_destroy :: "global_cache \<Rightarrow> global_cache" where
  "quantum_cache_destroy g = (case g of None \<Rightarrow> g | Some c \<Rightarrow> None)"

subsection \<open>\<^verbatim>\<open>quantum_cache_get_random\<close>\<close>

definition quantum_cache_get_random :: "global_cache \<Rightarrow> nat \<Rightarrow> double" where
  "quantum_cache_get_random g i =
     (case g of
        None \<Rightarrow> 1 / 2
      | Some c \<Rightarrow>
          if i \<ge> csize c then 1 / 2
          else ddiv (u64_to_double (seeds c ! i)) (u64_to_double UINT64_MAX))"

subsection \<open>\<^verbatim>\<open>quantum_cache_preload\<close>\<close>

text \<open>
  The key is the byte array \<^verbatim>\<open>api_key\<close> points to, \<open>None\<close> for a null pointer;
  \<^verbatim>\<open>strlen\<close> counts the bytes before the first zero byte (the list ends where the
  terminator stands when it holds no zero byte).
\<close>

definition strlen :: "8 word list \<Rightarrow> nat" where
  "strlen s = length (takeWhile (\<lambda>b. b \<noteq> 0) s)"

function seed_mix_loop :: "8 word list \<Rightarrow> nat \<Rightarrow> nat \<Rightarrow> 64 word \<Rightarrow> 64 word" where
  "seed_mix_loop api_key api_key_len i seed_mix =
     (if i < api_key_len
      then seed_mix_loop api_key api_key_len (Suc i) (push_bit 8 seed_mix OR ucast (api_key ! i))
      else seed_mix)"
  by pat_completeness auto
termination
  by (relation "measure (\<lambda>(api_key, api_key_len, i, seed_mix). api_key_len - i)") auto

definition mix_entropy :: "timespec \<Rightarrow> nat \<Rightarrow> 64 word \<Rightarrow> 64 word" where
  "mix_entropy ts i seed_mix =
     (let mixed_entropy = tv_nsec ts XOR tv_sec ts XOR word_of_nat i XOR seed_mix;
          mixed_entropy = (mixed_entropy * 1103515245 + 12345) AND UINT64_MAX;
          mixed_entropy = mixed_entropy XOR drop_bit 32 mixed_entropy;
          mixed_entropy = (mixed_entropy * 1664525 + 1013904223) AND UINT64_MAX
      in mixed_entropy)"

text \<open>\<open>clock i\<close> is what \<^verbatim>\<open>clock_gettime\<close> stores in iteration \<open>i\<close> of the loop.\<close>

function preload_loop ::
  "(nat \<Rightarrow> timespec) \<Rightarrow> 64 word \<Rightarrow> nat \<Rightarrow> nat \<Rightarrow> quantum_cache \<Rightarrow> quantum_cache" where
  "preload_loop clock seed_mix count i c =
     (if i < count \<and> i < csize c
      then preload_loop clock seed_mix count (Suc i)
             (c\<lparr>seeds := (seeds c)[i := mix_entropy (clock i) i seed_mix]\<rparr>)
      else c)"
  by pat_completeness auto
termination
  by (relation "measure (\<lambda>(clock, seed_mix, count, i, c). count - i)") auto

definition preload_fill :: "(nat \<Rightarrow> timespec) \<Rightarrow> 8 word list \<Rightarrow> nat \<Rightarrow> quantum_cache \<Rightarrow> quantum_cache" where
  "preload_fill clock api_key count c =
     (let seed_mix = seed_mix_loop api_key (strlen api_key) 0 0
      in preload_loop clock seed_mix count 0 c)"

definition quantum_cache_preload ::
  "environment \<Rightarrow> (nat \<Rightarrow> timespec) \<Rightarrow> global_cache \<Rightarrow> 8 word list option \<Rightarrow> nat
     \<Rightarrow> int \<times> global_cache" where
  "quantum_cache_preload env clock g api_key count =
     (case api_key of
        None \<Rightarrow> (- 1, g)
      | Some key \<Rightarrow>
          if count = 0 \<or> count > 10000000 then (- 1, g)
          else
            let (ret, g) = (if g = None then quantum_cache_init env g count else (0, g))
            in if ret \<noteq> 0 then (ret, g)
               else (0, map_option (preload_fill clock key count) g))"

subsection \<open>\<^verbatim>\<open>compute_quantum_phase\<close>\<close>

text \<open>
  \<open>None\<close> stands for the undefined behaviour of the integer division by zero in
  \<^verbatim>\<open>combined % global_cache->size\<close>.
\<close>

definition compute_quantum_phase :: "global_cache \<Rightarrow> 64 word \<Rightarrow> 64 word \<Rightarrow> double option" where
  "compute_quantum_phase g circuit_id packet_hash =
     (case g of
        None \<Rightarrow> Some M_PI
      | Some c \<Rightarrow>
          let combined = circuit_id XOR packet_hash;
              combined = push_bit 32 combined OR drop_bit 32 combined
          in if csize c = 0 then None
             else
               let i = unat combined mod csize c;
                   random_value = quantum_cache_get_random g i
               in Some (dmul (dmul random_value 2) M_PI))"

subsection \<open>Sequences of calls\<close>

datatype call =
    Init environment nat
  | Destroy
  | Preload environment "nat \<Rightarrow> timespec" "8 word list option" nat
  | GetRandom nat
  | ComputePhase "64 word" "64 word"

fun exec :: "global_cache \<Rightarrow> call \<Rightarrow> global_cache" where
  "exec g (Init env cache_size) = snd (quantum_cache_init env g cache_size)"
| "exec g Destroy = quantum_cache_destroy g"
| "exec g (Preload env clock api_key count) = snd (quantum_cache_preload env clock g api_key count)"
| "exec g (GetRandom i) = g"
| "exec g (ComputePhase circuit_id packet_hash) = g"

text \<open>The process starts with \<^verbatim>\<open>global_cache = NULL\<close>.\<close>

definition run :: "call list \<Rightarrow> global_cache" where
  "run cs = foldl exec None cs"


declare init_loop.simps [simp del]
declare seed_mix_loop.simps [simp del]
declare preload_loop.simps [simp del]

subsection \<open>The data-model invariant\<close>

definition cache_inv :: "global_cache \<Rightarrow> bool" where
  "cache_inv g =
     (case g of
        None \<Rightarrow> True
      | Some c \<Rightarrow> 1 \<le> csize c \<and> csize c \<le> 10000000 \<and> length (seeds c) = csize c)"

text \<open>The cursor (the \<^verbatim>\<open>index\<close> member) of a present cache is zero.\<close>

definition cursor_inv :: "global_cache \<Rightarrow> bool" where
  "cursor_inv g = (case g of None \<Rightarrow> True | Some c \<Rightarrow> index c = 0)"

section \<open>The specification's formulas\<close>

text \<open>
  The entropy mixing as the specification words it, on natural numbers with the
  wrap-around written out: the key bytes are folded into \<open>K\<close> by shifting left 8 bits
  and OR-ing in the next byte; then \<open>E = nanoseconds XOR seconds XOR i XOR K\<close>, a
  linear-congruential step, an XOR-fold of the high half, and a second
  linear-congruential step.
\<close>

definition spec_key_fold :: "nat list \<Rightarrow> nat" where
  "spec_key_fold bytes = foldl (\<lambda>K b. (push_bit 8 K mod 2 ^ 64) OR b) 0 bytes"

definition spec_entropy :: "nat \<Rightarrow> nat \<Rightarrow> nat \<Rightarrow> nat \<Rightarrow> nat" where
  "spec_entropy nanoseconds seconds i K =
     (let E = nanoseconds XOR seconds XOR i XOR K;
          E = (E * 1103515245 + 12345) mod 2 ^ 64;
          E = E XOR drop_bit 32 E;
          E = (E * 1664525 + 1013904223) mod 2 ^ 64
      in E)"

text \<open>The bytes of the C string a key holds: those before the first zero byte.\<close>

definition key_bytes :: "8 word list \<Rightarrow> nat list" where
  "key_bytes api_key = map unat (takeWhile (\<lambda>b. b \<noteq> 0) api_key)"

text \<open>
  Swapping the high and the low 32-bit half of a 64-bit value: the old low half
  becomes the high half of the result.
\<close>

definition swap_halves :: "64 word \<Rightarrow> 64 word" where
  "swap_halves x = word_cat (ucast x :: 32 word) (ucast (drop_bit 32 x) :: 32 word)"

section \<open>Concrete inputs\<close>

definition example_env :: environment where
  "example_env =
     \<lparr>malloc_cache_ok = True, malloc_seeds_ok = True, rwlock_init_ok = True,
      drand48 = (\<lambda>i. 25214903917 * word_of_nat i + 11)\<rparr>"

definition example_clock :: "nat \<Rightarrow> timespec" where
  "example_clock i = \<lparr>tv_sec = 86400, tv_nsec = 123456789\<rparr>"

definition example_cache :: quantum_cache where
  "example_cache =
     \<lparr>seeds = [9223372036854775808, 0, 4611686018427387904, 12345], csize = 4, index = 0\<rparr>"

definition example_run :: "call list" where
  "example_run =
     [Init example_env 3, GetRandom 1, Preload example_env example_clock (Some [97, 98, 99]) 2,
      ComputePhase 1 2]"

text \<open>An eight-byte key (no zero byte) that makes \<open>populate\<close> store the seed \<open>2\<^sup>6\<^sup>4 - 1\<close>.\<close>

definition saturating_key :: "8 word list" where
  "saturating_key = [9, 186, 147, 109, 188, 114, 153, 1]"

section \<open>Rounding to binary64\<close>

lemma round_half_even_of_int: "round_half_even (of_int m) = m"
  by (simp add: round_half_even_def)

lemma round_half_even_bounds:
  "of_int a \<le> x \<Longrightarrow> x \<le> of_int b \<Longrightarrow> a \<le> round_half_even x \<and> round_half_even x \<le> b"
  unfolding round_half_even_def Let_def
  by (auto simp: le_floor_iff floor_le_iff) linarith+

lemma round_half_even_error: "\<bar>of_int (round_half_even y) - y\<bar> \<le> 1 / 2"
  unfolding round_half_even_def Let_def by (auto simp: abs_if) linarith+

lemma round_half_even_up:
  assumes "even m" and "of_int m - 1 / 2 \<le> y" and "y \<le> of_int m"
  shows "round_half_even y = m"
proof (cases "y = of_int m")
  case True
  then show ?thesis
    by (simp add: round_half_even_of_int)
next
  case False
  then have "\<lfloor>y\<rfloor> = m - 1"
    using assms(2,3) by (intro floor_unique) simp_all
  then show ?thesis
    using assms unfolding round_half_even_def Let_def by auto
qed

lemma round_half_even_below:
  assumes "y < of_int m - 1 / 2"
  shows "round_half_even y < m"
proof (cases "\<lfloor>y\<rfloor> = m - 1")
  case True
  then have "y - of_int \<lfloor>y\<rfloor> < 1 / 2"
    using assms by simp
  then have "round_half_even y = \<lfloor>y\<rfloor>"
    by (simp add: round_half_even_def)
  then show ?thesis
    using True by simp
next
  case False
  have "y < of_int m"
    using assms by simp
  then have "\<lfloor>y\<rfloor> < m"
    by (simp add: floor_less_iff)
  then have "\<lfloor>y\<rfloor> + 1 < m"
    using False by simp
  moreover have "round_half_even y \<le> \<lfloor>y\<rfloor> + 1"
    using round_half_even_bounds [of "\<lfloor>y\<rfloor>" y "\<lfloor>y\<rfloor> + 1"] by simp
  ultimately show ?thesis
    by simp
qed

lemma round_half_even_near:
  assumes "\<bar>y - of_int m\<bar> < 1 / 2"
  shows "round_half_even y = m"
proof (cases "of_int m \<le> y")
  case True
  then have "\<lfloor>y\<rfloor> = m"
    using assms by (intro floor_unique) simp_all
  then show ?thesis
    using assms True by (simp add: round_half_even_def)
next
  case False
  then have "\<lfloor>y\<rfloor> = m - 1"
    using assms by (intro floor_unique) simp_all
  then show ?thesis
    using assms False by (simp add: round_half_even_def)
qed

lemma round_double_0: "round_double 0 = 0"
  by (simp add: round_double_def)

lemma round_double_scale:
  "round_double (x * 2 powr of_int k) = round_double x * 2 powr of_int k"
proof (cases "x = 0")
  case True
  then show ?thesis by (simp add: round_double_def)
next
  case False
  have "log 2 \<bar>x * 2 powr of_int k\<bar> = log 2 \<bar>x\<bar> + of_int k"
    using False by (simp add: abs_mult log_mult)
  then have e: "\<lfloor>log 2 \<bar>x * 2 powr of_int k\<bar>\<rfloor> - 52 = (\<lfloor>log 2 \<bar>x\<bar>\<rfloor> - 52) + k"
    by simp
  show ?thesis
    using False unfolding round_double_def e Let_def
    by (simp add: powr_add)
qed

lemma pow2_log_bounds:
  assumes "0 < x"
  shows "2 powr of_int \<lfloor>log 2 x\<rfloor> \<le> x" and "x < 2 powr (of_int \<lfloor>log 2 x\<rfloor> + 1)"
  using floor_log_eq_powr_iff [of x 2 "\<lfloor>log 2 x\<rfloor>"] assms by simp_all

text \<open>The shape of a rounded positive value: a 53-bit significand times a power of two.\<close>

lemma round_double_pos:
  assumes "0 < x"
  obtains m where "round_double x = of_int m * 2 powr of_int (\<lfloor>log 2 x\<rfloor> - 52)"
    and "2 ^ 52 \<le> m" and "m \<le> 2 ^ 53"
proof -
  define e where "e = \<lfloor>log 2 x\<rfloor> - 52"
  define y where "y = x / 2 powr of_int e"
  have "2 powr of_int (e + 52) \<le> x" "x < 2 powr of_int (e + 53)"
    using pow2_log_bounds [OF assms] by (simp_all add: e_def add.commute)
  then have "2 powr 52 * 2 powr of_int e \<le> x" "x < 2 powr 53 * 2 powr of_int e"
    by (simp_all add: powr_add mult.commute)
  then have "2 ^ 52 \<le> y" "y \<le> 2 ^ 53"
    by (simp_all add: y_def pos_le_divide_eq pos_divide_le_eq)
  then have "of_int (2 ^ 52) \<le> y" "y \<le> of_int (2 ^ 53)"
    by simp_all
  from round_half_even_bounds [OF this]
  have "2 ^ 52 \<le> round_half_even y" "round_half_even y \<le> 2 ^ 53"
    by simp_all
  moreover have "round_double x = of_int (round_half_even y) * 2 powr of_int e"
    using assms by (simp add: round_double_def e_def y_def)
  ultimately show thesis
    using that by (simp add: e_def)
qed

text \<open>Rounding moves a positive value by at most half a unit in the last place.\<close>

lemma round_double_error:
  assumes "0 < x"
  shows "\<bar>round_double x - x\<bar> \<le> 2 powr of_int (\<lfloor>log 2 x\<rfloor> - 53)"
proof -
  define e where "e = \<lfloor>log 2 x\<rfloor> - 52"
  define y where "y = x / 2 powr of_int e"
  have x: "x = y * 2 powr of_int e"
    by (simp add: y_def)
  have "round_double x = of_int (round_half_even y) * 2 powr of_int e"
    using assms by (simp add: round_double_def e_def y_def)
  then have "\<bar>round_double x - x\<bar> = \<bar>of_int (round_half_even y) - y\<bar> * 2 powr of_int e"
    by (subst (2) x) (simp add: abs_mult flip: left_diff_distrib)
  also have "\<dots> \<le> 1 / 2 * 2 powr of_int e"
    using round_half_even_error [of y] by (intro mult_right_mono) simp_all
  also have "\<dots> = 2 powr of_int (e - 1)"
    by (simp add: powr_diff)
  finally show ?thesis
    by (simp add: e_def)
qed

lemma round_double_of_int:
  assumes "0 < m" "m \<le> 2 ^ 53"
  shows "round_double (of_int m) = of_int m"
proof -
  define k where "k = \<lfloor>log 2 (of_int m)\<rfloor>"
  have pos: "0 < (of_int m :: real)"
    using assms by simp
  have lo: "2 powr of_int k \<le> (of_int m :: real)" and hi: "(of_int m :: real) < 2 powr (of_int k + 1)"
    using pow2_log_bounds [OF pos] by (simp_all add: k_def)
  have rd: "round_double (of_int m) =
      of_int (round_half_even (of_int m / 2 powr of_int (k - 52))) * 2 powr of_int (k - 52)"
    using pos by (simp add: round_double_def k_def)
  have "(of_int m :: real) \<le> of_int (2 ^ 53)"
    using assms(2) by (simp only: of_int_le_iff)
  then have m53: "(of_int m :: real) \<le> 2 powr of_int 53"
    by simp
  have "(2::real) powr of_int k \<le> 2 powr of_int 53"
    using lo m53 by (rule order_trans)
  then have "(of_int k :: real) \<le> of_int 53"
    by (subst (asm) powr_le_cancel_iff) simp_all
  then have k53: "k \<le> 53"
    by (simp only: of_int_le_iff)
  show ?thesis
  proof (cases "k = 53")
    case True
    then have "m = 2 ^ 53"
      using lo assms by simp
    then show ?thesis
      unfolding rd True by (simp add: round_half_even_def)
  next
    case False
    then have "k \<le> 52"
      using k53 by simp
    define j where "j = nat (52 - k)"
    have "2 powr of_int (k - 52) = inverse (2 ^ j :: real)"
      using \<open>k \<le> 52\<close> by (simp add: j_def powr_minus [symmetric] powr_realpow [symmetric])
    then have p: "2 powr of_int (k - 52) = inverse (of_int (2 ^ j) :: real)"
      by simp
    have "of_int m / 2 powr of_int (k - 52) = (of_int (m * 2 ^ j) :: real)"
      unfolding p by (simp only: of_int_mult divide_inverse inverse_inverse_eq)
    then have "round_half_even (of_int m / 2 powr of_int (k - 52)) = m * 2 ^ j"
      by (simp only: round_half_even_of_int)
    then show ?thesis
      unfolding rd p by simp
  qed
qed

lemma round_double_of_nat:
  "n \<le> 2 ^ 53 \<Longrightarrow> round_double (of_nat n) = of_nat n"
proof (cases "n = 0")
  case True
  then show ?thesis by (simp add: round_double_0)
next
  case False
  assume "n \<le> 2 ^ 53"
  then have "int n \<le> int (2 ^ 53)"
    by (simp only: of_nat_le_iff)
  then have "int n \<le> 2 ^ 53"
    by simp
  moreover have "0 < int n"
    using False by simp
  ultimately have "round_double (of_int (int n)) = of_int (int n)"
    by (rule round_double_of_int [rotated])
  then show ?thesis
    by (simp only: of_int_of_nat_eq)
qed

lemma round_double_idem:
  assumes "0 \<le> x"
  shows "round_double (round_double x) = round_double x"
proof (cases "x = 0")
  case True
  then show ?thesis by (simp add: round_double_0)
next
  case False
  then have "0 < x" using assms by simp
  then obtain m where m: "round_double x = of_int m * 2 powr of_int (\<lfloor>log 2 x\<rfloor> - 52)"
    "2 ^ 52 \<le> m" "m \<le> 2 ^ 53"
    by (rule round_double_pos)
  from m(2) have "0 < m"
    by (rule less_le_trans [rotated]) simp
  then have "round_double (of_int m) = of_int m"
    using m(3) by (rule round_double_of_int)
  then show ?thesis
    unfolding m(1) round_double_scale by simp
qed

lemma round_double_nonneg:
  assumes "0 \<le> x"
  shows "0 \<le> round_double x"
proof (cases "x = 0")
  case True
  then show ?thesis by (simp add: round_double_0)
next
  case False
  then have "0 < x" using assms by simp
  then obtain m where m: "round_double x = of_int m * 2 powr of_int (\<lfloor>log 2 x\<rfloor> - 52)"
    "2 ^ 52 \<le> m" "m \<le> 2 ^ 53"
    by (rule round_double_pos)
  from m(2) have "0 \<le> m"
    by (rule order_trans [rotated]) simp
  then show ?thesis
    unfolding m(1) by simp
qed

lemma round_double_pow2: "round_double (2 ^ n) = 2 ^ n"
proof -
  have "round_double (of_int 1 * 2 powr of_int (int n)) = round_double (of_int 1) * 2 powr of_int (int n)"
    by (rule round_double_scale)
  moreover have "round_double (of_int 1) = of_int 1"
    by (rule round_double_of_int) simp_all
  ultimately show ?thesis
    by (simp add: powr_realpow)
qed

lemma round_double_le_pow2:
  assumes "0 \<le> x" "x \<le> 2 ^ n"
  shows "round_double x \<le> 2 ^ n"
proof -
  consider "x = 0" | "x = 2 ^ n" | "0 < x" "x < 2 ^ n"
    using assms by fastforce
  then show ?thesis
  proof cases
    case 1
    then show ?thesis by (simp add: round_double_0)
  next
    case 2
    then show ?thesis by (simp add: round_double_pow2)
  next
    case 3
    define k where "k = \<lfloor>log 2 x\<rfloor>"
    obtain m where m: "round_double x = of_int m * 2 powr of_int (k - 52)"
      "2 ^ 52 \<le> m" "m \<le> 2 ^ 53"
      using round_double_pos [OF 3(1)] unfolding k_def by blast
    have "2 powr of_int k \<le> x"
      using pow2_log_bounds(1) [OF 3(1)] by (simp add: k_def)
    then have "(2::real) powr of_int k < 2 powr of_int (int n)"
      using 3(2) by (simp add: powr_realpow)
    then have "(of_int k :: real) < of_int (int n)"
      by (subst (asm) powr_less_cancel_iff) simp_all
    then have kn: "k + 1 \<le> int n"
      by simp
    have "(of_int m :: real) \<le> of_int (2 ^ 53)"
      using m(3) by (simp only: of_int_le_iff)
    then have "(of_int m :: real) \<le> 2 powr of_int 53"
      by simp
    then have "(of_int m :: real) * 2 powr of_int (k - 52) \<le> 2 powr of_int 53 * 2 powr of_int (k - 52)"
      by (rule mult_right_mono) simp
    also have "\<dots> = 2 powr of_int (k + 1)"
      unfolding powr_add [symmetric] by (simp add: add.commute)
    also have "\<dots> \<le> 2 powr of_int (int n)"
      using kn by (subst powr_le_cancel_iff) simp_all
    finally show ?thesis
      unfolding m(1) by (simp add: powr_realpow)
  qed
qed

lemma round_double_div_pow2: "round_double (x / 2 ^ n) = round_double x / 2 ^ n"
proof -
  have p: "2 powr of_int (- int n) = inverse (2 ^ n :: real)"
    by (simp add: powr_minus powr_realpow)
  show ?thesis
    using round_double_scale [of x "- int n"] unfolding p by (simp add: divide_inverse)
qed

lemma round_double_mult_pow2: "round_double (x * 2 ^ n) = round_double x * 2 ^ n"
  using round_double_scale [of x "int n"] by (simp add: powr_realpow)

lemma round_double_half: "round_double (1 / 2) = 1 / 2"
  using round_double_div_pow2 [of 1 1] round_double_pow2 [of 0] by simp

lemma round_double_M_PI_half: "round_double (884279719003555 / 562949953421312) = 884279719003555 / 562949953421312"
  using round_double_div_pow2 [of 884279719003555 49] round_double_of_nat [of 884279719003555]
  by simp

subsection \<open>Evaluating the rounding\<close>

text \<open>How to evaluate the rounding of a positive value once its binade is known.\<close>

lemma round_double_eval:
  assumes "2 powr of_int k \<le> x" and "x < 2 powr of_int (k + 1)"
  shows "round_double x = of_int (round_half_even (x / 2 powr of_int (k - 52))) * 2 powr of_int (k - 52)"
proof -
  have "0 < x"
    using assms(1) by (rule less_le_trans [rotated]) simp
  moreover from this have "\<lfloor>log 2 x\<rfloor> = k"
    using assms by (subst floor_log_eq_powr_iff) (simp_all add: add.commute)
  ultimately show ?thesis
    by (simp add: round_double_def)
qed

lemma round_double_example_down: "round_double 9007199254740993 = 9007199254740992"
  by (subst round_double_eval [where k = 53]) (simp_all add: round_half_even_def)

lemma round_double_example_up: "round_double 9007199254740995 = 9007199254740996"
  by (subst round_double_eval [where k = 53]) (simp_all add: round_half_even_def)

lemma round_double_example_below_tie: "round_double 18446744073709550591 = 18446744073709549568"
  by (subst round_double_eval [where k = 63]) (simp_all add: round_half_even_def)

lemma round_double_example_tie: "round_double 18446744073709550592 = 18446744073709551616"
  by (subst round_double_eval [where k = 63]) (simp_all add: round_half_even_def)

lemma round_double_example_third: "round_double (1 / 3) = 6004799503160661 / 18014398509481984"
  by (subst round_double_eval [where k = "- 2"]) (simp_all add: round_half_even_def powr_minus)

subsection \<open>The constant \<^verbatim>\<open>M_PI\<close>\<close>

lemma arctan_partial_sums:
  assumes "0 < x" and "x \<le> 1"
  shows "(\<Sum>k<2 * n. (- 1) ^ k * (1 / real (k * 2 + 1) * x ^ (k * 2 + 1))) \<le> arctan x"
    and "arctan x \<le> (\<Sum>k<2 * n + 1. (- 1) ^ k * (1 / real (k * 2 + 1) * x ^ (k * 2 + 1)))"
proof -
  have x: "\<bar>x\<bar> \<le> 1"
    using assms by simp
  let ?a = "\<lambda>n. 1 / real (n * 2 + 1) * x ^ (n * 2 + 1)"
  have "0 < ?a 0"
    using assms by simp
  then have "(\<Sum>i. (- 1) ^ i * ?a i) \<in> {\<Sum>i<2 * n. (- 1) ^ i * ?a i .. \<Sum>i<2 * n + 1. (- 1) ^ i * ?a i}"
    using summable_Leibniz(2) [OF zeroseq_arctan_series [OF x] monoseq_arctan_series [OF x]]
    by blast
  then show "(\<Sum>k<2 * n. (- 1) ^ k * ?a k) \<le> arctan x"
    and "arctan x \<le> (\<Sum>k<2 * n + 1. (- 1) ^ k * ?a k)"
    unfolding arctan_series [OF x] by simp_all
qed

lemma arctan_fifth_bounds:
  "(\<Sum>k<12. (- 1) ^ k * (1 / real (k * 2 + 1) * (1 / 5) ^ (k * 2 + 1))) \<le> arctan (1 / 5)"
  "arctan (1 / 5) \<le> (\<Sum>k<13. (- 1) ^ k * (1 / real (k * 2 + 1) * (1 / 5) ^ (k * 2 + 1)))"
  using arctan_partial_sums [of "1 / 5" 6] by simp_all

lemma arctan_239_bounds:
  "(\<Sum>k<4. (- 1) ^ k * (1 / real (k * 2 + 1) * (1 / 239) ^ (k * 2 + 1))) \<le> arctan (1 / 239)"
  "arctan (1 / 239) \<le> (\<Sum>k<5. (- 1) ^ k * (1 / real (k * 2 + 1) * (1 / 239) ^ (k * 2 + 1)))"
  using arctan_partial_sums [of "1 / 239" 2] by simp_all

lemma pi_lower: "M_PI - 1 / 2 ^ 52 < pi"
proof -
  have "M_PI - 1 / 2 ^ 52 <
      16 * (\<Sum>k<12. (- 1) ^ k * (1 / real (k * 2 + 1) * (1 / 5) ^ (k * 2 + 1)))
      - 4 * (\<Sum>k<5. (- 1) ^ k * (1 / real (k * 2 + 1) * (1 / 239) ^ (k * 2 + 1)))"
    by (simp add: M_PI_def eval_nat_numeral)
  also have "\<dots> \<le> 16 * arctan (1 / 5) - 4 * arctan (1 / 239)"
    using arctan_fifth_bounds(1) arctan_239_bounds(2) by linarith
  also have "\<dots> = pi"
    using machin by simp
  finally show ?thesis .
qed

lemma pi_upper: "pi < M_PI + 1 / 2 ^ 52"
proof -
  have "pi = 16 * arctan (1 / 5) - 4 * arctan (1 / 239)"
    using machin by simp
  also have "\<dots> \<le> 16 * (\<Sum>k<13. (- 1) ^ k * (1 / real (k * 2 + 1) * (1 / 5) ^ (k * 2 + 1)))
      - 4 * (\<Sum>k<4. (- 1) ^ k * (1 / real (k * 2 + 1) * (1 / 239) ^ (k * 2 + 1)))"
    using arctan_fifth_bounds(2) arctan_239_bounds(1) by linarith
  also have "\<dots> < M_PI + 1 / 2 ^ 52"
    by (simp add: M_PI_def eval_nat_numeral)
  finally show ?thesis .
qed

text \<open>\<^verbatim>\<open>M_PI\<close> is \<open>\<pi>\<close> rounded to a double.\<close>

lemma round_double_pi: "round_double pi = M_PI"
proof -
  have p: "2 powr of_int (1 - 52) = (1 / 2 ^ 51 :: real)"
  proof -
    have "(2::real) powr of_int (1 - 52) = 2 powr (- 51)"
      by simp
    also have "\<dots> = inverse (2 powr 51)"
      by (rule powr_minus)
    finally show ?thesis
      by (simp add: inverse_eq_divide)
  qed
  have "pi * 2 ^ 51 - 7074237752028440 < 1 / 2" "- (1 / 2) < pi * 2 ^ 51 - 7074237752028440"
    using pi_lower pi_upper by (simp_all add: M_PI_def)
  then have "\<bar>pi * 2 ^ 51 - of_int 7074237752028440\<bar> < 1 / 2"
    by (simp only: abs_less_iff of_int_numeral) simp
  then have r: "round_half_even (pi * 2 ^ 51) = 7074237752028440"
    by (rule round_half_even_near)
  have "2 powr of_int 1 \<le> pi" "pi < 2 powr of_int (1 + 1)"
    using pi_ge_two pi_less_4 by simp_all
  then have "round_double pi =
      of_int (round_half_even (pi / 2 powr of_int (1 - 52))) * 2 powr of_int (1 - 52)"
    by (rule round_double_eval)
  also have "pi / 2 powr of_int (1 - 52) = pi * 2 ^ 51"
    unfolding p by simp
  finally show ?thesis
    unfolding r p by (simp add: M_PI_def)
qed

lemma round_double_two_pi: "round_double (2 * pi) = 2 * M_PI"
  using round_double_mult_pow2 [of pi 1] by (simp add: round_double_pi mult.commute)

subsection \<open>Conversions between \<^verbatim>\<open>uint64_t\<close> and \<^verbatim>\<open>double\<close>\<close>

lemma UINT64_MAX_minus1: "UINT64_MAX = - 1"
  by (simp add: UINT64_MAX_def)

lemma and_UINT64_MAX: "x AND UINT64_MAX = x"
  by (simp add: UINT64_MAX_minus1)

lemma u64_to_double_max: "u64_to_double UINT64_MAX = 2 ^ 64"
proof -
  have "\<lfloor>log 2 (18446744073709551615::real)\<rfloor> = 63"
    by (subst floor_log_eq_powr_iff) simp_all
  then show ?thesis
    by (simp add: u64_to_double_def UINT64_MAX_def round_double_def round_half_even_def)
qed

lemma u64_to_double_nonneg: "0 \<le> u64_to_double w"
  unfolding u64_to_double_def by (rule round_double_nonneg) (rule of_nat_0_le_iff)

lemma u64_to_double_le: "u64_to_double w \<le> 2 ^ 64"
  unfolding u64_to_double_def
proof (rule round_double_le_pow2)
  show "0 \<le> real (unat w)" by (rule of_nat_0_le_iff)
  have "unat w < 2 ^ 64"
    using unsigned_less [of w] by simp
  then have "real (unat w) < real (2 ^ 64)"
    by (simp only: of_nat_less_iff)
  then show "real (unat w) \<le> 2 ^ 64"
    by simp
qed

lemma u64_to_double_idem: "round_double (u64_to_double w) = u64_to_double w"
  unfolding u64_to_double_def by (rule round_double_idem) (rule of_nat_0_le_iff)

lemma u64_to_double_exact: "unat w \<le> 2 ^ 53 \<Longrightarrow> u64_to_double w = real (unat w)"
  unfolding u64_to_double_def by (rule round_double_of_nat)

text \<open>
  The conversion of a 64-bit value reaches \<open>2\<^sup>6\<^sup>4\<close> exactly from \<open>2\<^sup>6\<^sup>4 - 1024\<close> on (the
  tie at \<open>2\<^sup>6\<^sup>4 - 1024\<close> goes to the even significand).
\<close>

lemma u64_to_double_saturates:
  "u64_to_double w = 2 ^ 64 \<longleftrightarrow> 2 ^ 64 - 1024 \<le> unat w"
proof (cases "unat w < 2 ^ 63")
  case True
  then have "real (unat w) \<le> real (2 ^ 63)"
    by (simp only: of_nat_le_iff less_imp_le)
  then have "real (unat w) \<le> 2 ^ 63"
    by simp
  then have "u64_to_double w \<le> 2 ^ 63"
    unfolding u64_to_double_def by (intro round_double_le_pow2) (rule of_nat_0_le_iff)
  then show ?thesis
    using True by auto
next
  case False
  define x where "x = real (unat w)"
  have "unat w < 2 ^ 64"
    using unsigned_less [of w] by simp
  then have "real (unat w) < real (2 ^ 64)"
    by (simp only: of_nat_less_iff)
  then have hi: "x < 2 ^ 64"
    by (simp add: x_def)
  have "real (2 ^ 63) \<le> real (unat w)"
    using False by (simp only: of_nat_le_iff not_less)
  then have lo: "2 ^ 63 \<le> x"
    by (simp add: x_def)
  have "round_double x = of_int (round_half_even (x / 2048)) * 2048"
    using lo hi by (subst round_double_eval [where k = 63]) simp_all
  then have r: "u64_to_double w = of_int (round_half_even (x / 2048)) * 2048"
    by (simp only: u64_to_double_def x_def)
  have iff: "2 ^ 64 - 1024 \<le> unat w \<longleftrightarrow> 18446744073709550592 \<le> x"
  proof -
    have "real (2 ^ 64 - 1024) \<le> real (unat w) \<longleftrightarrow> 2 ^ 64 - 1024 \<le> unat w"
      by (rule of_nat_le_iff)
    then show ?thesis
      by (simp add: x_def)
  qed
  show ?thesis
  proof (cases "18446744073709550592 \<le> x")
    case True
    then have "round_half_even (x / 2048) = 2 ^ 53"
      using hi by (intro round_half_even_up) simp_all
    then show ?thesis
      using True iff r by simp
  next
    case False
    then have "round_half_even (x / 2048) < 2 ^ 53"
      by (intro round_half_even_below) simp
    then have "real_of_int (round_half_even (x / 2048)) < 2 ^ 53"
      by (metis of_int_less_iff of_int_numeral of_int_power)
    then show ?thesis
      using False iff r by simp
  qed
qed

section \<open>The loops\<close>

lemma init_loop_length: "length (init_loop rnd n i s) = length s"
proof (induction rnd n i s rule: init_loop.induct)
  case (1 rnd n i s)
  then show ?case
    by (subst init_loop.simps) simp
qed

lemma init_loop_nth:
  "length s = n \<Longrightarrow> j < n \<Longrightarrow>
   init_loop rnd n i s ! j = (if i \<le> j then init_seed (rnd j) else s ! j)"
proof (induction rnd n i s rule: init_loop.induct)
  case (1 rnd n i s)
  show ?case
  proof (cases "i < n")
    case True
    then have "init_loop rnd n i s ! j = init_loop rnd n (Suc i) (s[i := init_seed (rnd i)]) ! j"
      by (subst init_loop.simps) simp
    also have "\<dots> = (if Suc i \<le> j then init_seed (rnd j) else s[i := init_seed (rnd i)] ! j)"
      using "1.IH" [OF True] "1.prems" by simp
    also have "\<dots> = (if i \<le> j then init_seed (rnd j) else s ! j)"
    proof -
      consider "j = i" | "i < j" | "j < i"
        by linarith
      then show ?thesis
        using True "1.prems" by cases simp_all
    qed
    finally show ?thesis .
  next
    case False
    then show ?thesis
      using "1.prems" by (subst init_loop.simps) simp
  qed
qed

lemma seed_mix_loop_foldl:
  "n \<le> length k \<Longrightarrow>
   seed_mix_loop k n i acc = foldl (\<lambda>a b. push_bit 8 a OR ucast b) acc (drop i (take n k))"
proof (induction k n i acc rule: seed_mix_loop.induct)
  case (1 k n i acc)
  show ?case
  proof (cases "i < n")
    case True
    then have "drop i (take n k) = k ! i # drop (Suc i) (take n k)"
      using "1.prems" by (simp flip: Cons_nth_drop_Suc)
    then show ?thesis
      using True "1.IH" [OF True "1.prems"] by (subst seed_mix_loop.simps) simp
  next
    case False
    then show ?thesis
      by (subst seed_mix_loop.simps) simp
  qed
qed

lemma strlen_take: "take (strlen k) k = takeWhile (\<lambda>b. b \<noteq> 0) k"
  unfolding strlen_def by (rule takeWhile_eq_take [symmetric])

lemma strlen_le: "strlen k \<le> length k"
  unfolding strlen_def by (rule length_takeWhile_le)

lemma seed_mix_foldl:
  "seed_mix_loop k (strlen k) 0 0 =
   foldl (\<lambda>a b. push_bit 8 a OR ucast b) 0 (takeWhile (\<lambda>b. b \<noteq> 0) k)"
  by (simp add: seed_mix_loop_foldl strlen_le strlen_take)

lemma preload_loop_csize: "csize (preload_loop clock K count i c) = csize c"
proof (induction clock K count i c rule: preload_loop.induct)
  case (1 clock K count i c)
  then show ?case
    by (subst preload_loop.simps) simp
qed

lemma preload_loop_index: "index (preload_loop clock K count i c) = index c"
proof (induction clock K count i c rule: preload_loop.induct)
  case (1 clock K count i c)
  then show ?case
    by (subst preload_loop.simps) simp
qed

lemma preload_loop_length: "length (seeds (preload_loop clock K count i c)) = length (seeds c)"
proof (induction clock K count i c rule: preload_loop.induct)
  case (1 clock K count i c)
  then show ?case
    by (subst preload_loop.simps) simp
qed

lemma index_seeds_update_swap:
  "c\<lparr>index := k, seeds := s\<rparr> = c\<lparr>seeds := s, index := k\<rparr>"
  by (cases c) simp

lemma preload_loop_index_update:
  "preload_loop clock K count i (c\<lparr>index := k\<rparr>) = (preload_loop clock K count i c)\<lparr>index := k\<rparr>"
proof (induction clock K count i c rule: preload_loop.induct)
  case (1 clock K count i c)
  show ?case
  proof (cases "i < count \<and> i < csize c")
    case True
    let ?s = "(seeds c)[i := mix_entropy (clock i) i K]"
    have "preload_loop clock K count i (c\<lparr>index := k\<rparr>) =
        preload_loop clock K count (Suc i) ((c\<lparr>seeds := ?s\<rparr>)\<lparr>index := k\<rparr>)"
      using True by (subst preload_loop.simps) (simp add: index_seeds_update_swap)
    also have "\<dots> = (preload_loop clock K count (Suc i) (c\<lparr>seeds := ?s\<rparr>))\<lparr>index := k\<rparr>"
      using True by (rule "1.IH")
    also have "preload_loop clock K count (Suc i) (c\<lparr>seeds := ?s\<rparr>) = preload_loop clock K count i c"
      using True by (subst (2) preload_loop.simps) simp
    finally show ?thesis .
  next
    case False
    then have "preload_loop clock K count i (c\<lparr>index := k\<rparr>) = c\<lparr>index := k\<rparr>"
      by (subst preload_loop.simps) auto
    moreover have "preload_loop clock K count i c = c"
      using False by (subst preload_loop.simps) auto
    ultimately show ?thesis
      by simp
  qed
qed

lemma preload_loop_nth:
  "length (seeds c) = csize c \<Longrightarrow> j < csize c \<Longrightarrow>
   seeds (preload_loop clock K count i c) ! j =
     (if i \<le> j \<and> j < count then mix_entropy (clock j) j K else seeds c ! j)"
proof (induction clock K count i c rule: preload_loop.induct)
  case (1 clock K count i c)
  show ?case
  proof (cases "i < count \<and> i < csize c")
    case True
    let ?c = "c\<lparr>seeds := (seeds c)[i := mix_entropy (clock i) i K]\<rparr>"
    have "seeds (preload_loop clock K count i c) ! j = seeds (preload_loop clock K count (Suc i) ?c) ! j"
      using True by (subst preload_loop.simps) simp
    also have "\<dots> = (if Suc i \<le> j \<and> j < count then mix_entropy (clock j) j K else seeds ?c ! j)"
      using "1.IH" [OF True] "1.prems" by simp
    also have "\<dots> = (if i \<le> j \<and> j < count then mix_entropy (clock j) j K else seeds c ! j)"
      using True "1.prems" by (auto simp: nth_list_update le_Suc_eq)
    finally show ?thesis .
  next
    case False
    then show ?thesis
      using "1.prems" by (subst preload_loop.simps) auto
  qed
qed

section \<open>Creation\<close>

lemma init_ok:
  "quantum_cache_init env g n = (0, g') \<Longrightarrow>
   1 \<le> n \<and> n \<le> 10000000 \<and>
   g' = Some \<lparr>seeds = init_loop (drand48 env) n 0 (replicate n 0), csize = n, index = 0\<rparr>"
  by (auto simp: quantum_cache_init_def split: if_splits)

lemma init_seed_unat: "unat (init_seed X) = unat X * 2 ^ 16"
proof -
  have X: "unat X < 2 ^ 48"
    using unsigned_less [of X] by simp
  then have "unat X \<le> 2 ^ 53"
    by simp
  then have r: "round_double (real (unat X)) = real (unat X)"
    by (rule round_double_of_nat)
  have "drand48_value X * 2 ^ 64 = real (unat X) * 2 ^ 16"
    by (simp add: drand48_value_def)
  then have "dmul (drand48_value X) (u64_to_double UINT64_MAX) = real (unat X * 2 ^ 16)"
    by (simp only: dmul_def u64_to_double_max round_double_mult_pow2 r of_nat_mult of_nat_power of_nat_numeral)
  then have "init_seed X = word_of_nat (unat X * 2 ^ 16)"
    by (simp only: init_seed_def double_to_u64_def floor_of_nat of_int_of_nat_eq)
  moreover have "unat (word_of_nat (unat X * 2 ^ 16) :: 64 word) = unat X * 2 ^ 16"
    unfolding unat_of_nat using X by simp
  ultimately show ?thesis
    by (simp only:)
qed

lemma init_seed_double: "u64_to_double (init_seed X) = real (unat X) * 2 ^ 16"
proof -
  have "unat X < 2 ^ 48"
    using unsigned_less [of X] by simp
  then have "unat X \<le> 2 ^ 53"
    by simp
  then have "round_double (real (unat X)) = real (unat X)"
    by (rule round_double_of_nat)
  then show ?thesis
    by (simp only: u64_to_double_def init_seed_unat round_double_mult_pow2 of_nat_mult of_nat_power of_nat_numeral)
qed

text \<open>
  Claim C8. \<open>create\<close> with capacity \<open>0\<close> or a capacity above \<open>10 000 000\<close> returns
  \<open>-1\<close> (invalid size) and leaves the global state as it was; from a state with no
  cache, no cache is present afterwards.
\<close>

theorem init_invalid_size:
  "cache_size = 0 \<or> 10000000 < cache_size \<Longrightarrow> quantum_cache_init env g cache_size = (- 1, g)"
  by (auto simp: quantum_cache_init_def)

theorem init_invalid_size_witness:
  "quantum_cache_init example_env None 0 = (- 1, None)
   \<and> quantum_cache_init example_env None 10000001 = (- 1, None)
   \<and> quantum_cache_init example_env (Some example_cache) 0 = (- 1, Some example_cache)"
  using init_invalid_size [of 0 example_env None] init_invalid_size [of 10000001 example_env None]
    init_invalid_size [of 0 example_env "Some example_cache"]
  by simp

section \<open>Lookup\<close>

text \<open>The lookup of a stored seed: the seed, rounded to a double, over \<open>2\<^sup>6\<^sup>4\<close>.\<close>

lemma ddiv_u64_max: "ddiv (u64_to_double w) (u64_to_double UINT64_MAX) = u64_to_double w / 2 ^ 64"
  by (simp only: ddiv_def u64_to_double_max round_double_div_pow2 u64_to_double_idem)

lemma get_random_Some:
  "i < csize c \<Longrightarrow> quantum_cache_get_random (Some c) i = u64_to_double (seeds c ! i) / 2 ^ 64"
  by (simp add: quantum_cache_get_random_def ddiv_u64_max)

lemma get_random_None: "quantum_cache_get_random None i = 1 / 2"
  by (simp add: quantum_cache_get_random_def)

lemma get_random_fallback: "csize c \<le> i \<Longrightarrow> quantum_cache_get_random (Some c) i = 1 / 2"
  by (simp add: quantum_cache_get_random_def)

text \<open>Every value the lookup returns is a double.\<close>

lemma get_random_is_double:
  "round_double (quantum_cache_get_random g i) = quantum_cache_get_random g i"
proof (cases g)
  case None
  then show ?thesis
    by (simp add: get_random_None round_double_half)
next
  case (Some c)
  show ?thesis
  proof (cases "i < csize c")
    case True
    then show ?thesis
      unfolding Some by (simp only: get_random_Some round_double_div_pow2 u64_to_double_idem)
  next
    case False
    then show ?thesis
      unfolding Some by (simp add: get_random_fallback round_double_half)
  qed
qed

lemma get_random_bounds: "0 \<le> quantum_cache_get_random g i \<and> quantum_cache_get_random g i \<le> 1"
proof (cases g)
  case None
  then show ?thesis by (simp add: get_random_None)
next
  case (Some c)
  show ?thesis
  proof (cases "i < csize c")
    case True
    then show ?thesis
      using u64_to_double_nonneg [of "seeds c ! i"] u64_to_double_le [of "seeds c ! i"]
      unfolding Some by (simp add: get_random_Some)
  next
    case False
    then show ?thesis
      unfolding Some by (simp add: get_random_fallback)
  qed
qed

lemma get_random_one_iff:
  "i < csize c \<Longrightarrow>
   quantum_cache_get_random (Some c) i = 1 \<longleftrightarrow> 2 ^ 64 - 1024 \<le> unat (seeds c ! i)"
  using u64_to_double_saturates [of "seeds c ! i"] by (simp add: get_random_Some)

lemma drand48_value_range: "0 \<le> drand48_value X \<and> drand48_value X < 1"
proof -
  have "unat X < 2 ^ 48"
    using unsigned_less [of X] by simp
  then have "real (unat X) < real (2 ^ 48)"
    by (simp only: of_nat_less_iff)
  moreover have "0 \<le> real (unat X)"
    by (rule of_nat_0_le_iff)
  ultimately show ?thesis
    by (simp add: drand48_value_def)
qed

text \<open>Right after \<open>create\<close>, a lookup returns the value \<^verbatim>\<open>drand48\<close> produced for that slot.\<close>

lemma get_random_after_init:
  assumes "quantum_cache_init env g n = (0, g')" and "i < n"
  shows "quantum_cache_get_random g' i = drand48_value (drand48 env i)"
proof -
  have g': "g' = Some \<lparr>seeds = init_loop (drand48 env) n 0 (replicate n 0), csize = n, index = 0\<rparr>"
    using init_ok [OF assms(1)] by simp
  have "init_loop (drand48 env) n 0 (replicate n 0) ! i = init_seed (drand48 env i)"
    using assms(2) by (simp add: init_loop_nth)
  then show ?thesis
    unfolding g' using assms(2) by (simp add: get_random_Some init_seed_double drand48_value_def)
qed

text \<open>
  Claim C3. For a present cache and an index below the capacity, the lookup returns
  the floating-point ratio of the stored seed and \<open>2\<^sup>6\<^sup>4\<close>: the double nearest to
  \<open>seed / 2\<^sup>6\<^sup>4\<close>, which is the exact quotient whenever the seed fits the 53-bit
  significand. (The source divides by \<^verbatim>\<open>UINT64_MAX\<close>, which the conversion to
  \<^verbatim>\<open>double\<close> rounds to \<open>2\<^sup>6\<^sup>4\<close>.)
\<close>

theorem get_random_ratio:
  assumes "i < csize c" and "length (seeds c) = csize c"
  shows "quantum_cache_get_random (Some c) i = round_double (real (unat (seeds c ! i)) / 2 ^ 64)
    \<and> (unat (seeds c ! i) \<le> 2 ^ 53 \<longrightarrow>
         quantum_cache_get_random (Some c) i = real (unat (seeds c ! i)) / 2 ^ 64)"
proof -
  have eq: "quantum_cache_get_random (Some c) i = u64_to_double (seeds c ! i) / 2 ^ 64"
    using assms(1) by (rule get_random_Some)
  have "round_double (real (unat (seeds c ! i)) / 2 ^ 64) = u64_to_double (seeds c ! i) / 2 ^ 64"
    by (simp only: round_double_div_pow2 u64_to_double_def)
  then show ?thesis
    unfolding eq by (simp add: u64_to_double_exact)
qed

theorem get_random_ratio_witness:
  "3 < csize example_cache \<and> length (seeds example_cache) = csize example_cache
   \<and> unat (seeds example_cache ! 3) \<le> 2 ^ 53
   \<and> quantum_cache_get_random (Some example_cache) 3 = 12345 / 2 ^ 64"
  using get_random_ratio [of 3 example_cache]
  by (simp add: example_cache_def)

section \<open>Phase derivation\<close>

lemma rotate_is_swap: "push_bit 32 (x::64 word) OR drop_bit 32 x = swap_halves x"
  unfolding swap_halves_def
  by (rule bit_word_eqI) (auto simp: bit_simps dest: bit_imp_le_length)

lemma rotate_index: "n < 64 \<Longrightarrow> \<not> n < 32 \<Longrightarrow> (n + 32) mod 64 = n - (32::nat)"
  by (simp add: mod_if)

lemma swap_is_rotl: "swap_halves x = word_rotl 32 x"
  unfolding swap_halves_def
proof (rule bit_word_eqI)
  fix n
  assume "n < LENGTH(64)"
  then have n: "n < 64"
    by simp
  show "bit (word_cat (ucast x :: 32 word) (ucast (drop_bit 32 x) :: 32 word) :: 64 word) n
    \<longleftrightarrow> bit (word_rotl 32 x) n"
  proof (cases "n < 32")
    case True
    then have "(n + 32) mod 64 = n + 32"
      by simp
    then show ?thesis
      using True n by (simp add: bit_simps add.commute)
  next
    case False
    then have "(n + 32) mod 64 = n - 32"
      using n by (rule rotate_index [rotated])
    moreover have "n - 32 < 32"
      using n by simp
    ultimately show ?thesis
      using False n by (simp add: bit_simps)
  qed
qed

lemma dmul_two: "dmul (quantum_cache_get_random g i) 2 = quantum_cache_get_random g i * 2"
  using round_double_mult_pow2 [of "quantum_cache_get_random g i" 1]
  by (simp add: dmul_def get_random_is_double)

text \<open>
  Claim C5. For a present cache, the phase derivation takes
  \<open>combined = circuitId XOR packetHash\<close>, swaps the two 32-bit halves of \<open>combined\<close>
  (a rotation by 32 bits), takes the index \<open>combined mod capacity\<close> and returns the
  lookup at that index times \<open>2\<pi>\<close>: the double product of the lookup and the double
  \<open>2\<pi>\<close>.
\<close>

theorem phase_formula:
  assumes "0 < csize c"
  shows "compute_quantum_phase (Some c) circuit_id packet_hash =
      Some (round_double
        (quantum_cache_get_random (Some c)
           (unat (swap_halves (circuit_id XOR packet_hash)) mod csize c) * round_double (2 * pi)))
    \<and> swap_halves (circuit_id XOR packet_hash) = word_rotl 32 (circuit_id XOR packet_hash)"
proof -
  let ?v = "quantum_cache_get_random (Some c)
    (unat (swap_halves (circuit_id XOR packet_hash)) mod csize c)"
  have "compute_quantum_phase (Some c) circuit_id packet_hash = Some (dmul (dmul ?v 2) M_PI)"
    using assms by (simp add: compute_quantum_phase_def Let_def rotate_is_swap)
  also have "dmul (dmul ?v 2) M_PI = round_double (?v * round_double (2 * pi))"
    unfolding dmul_two round_double_two_pi by (simp add: dmul_def mult.assoc)
  finally show ?thesis
    by (simp add: swap_is_rotl)
qed

theorem phase_formula_witness:
  "0 < csize example_cache
   \<and> compute_quantum_phase (Some example_cache) 8589934593 1 =
       Some (884279719003555 / 562949953421312)"
proof -
  have pos: "0 < csize example_cache"
    by (simp add: example_cache_def)
  have "u64_to_double 4611686018427387904 = 4611686018427387904"
    using round_double_pow2 [of 62] by (simp add: u64_to_double_def)
  then have v: "quantum_cache_get_random (Some example_cache) 2 = 1 / 4"
    by (simp add: get_random_Some example_cache_def)
  have idx: "unat (swap_halves (8589934593 XOR 1)) mod csize example_cache = 2"
    by (simp add: rotate_is_swap [symmetric] example_cache_def)
  have "compute_quantum_phase (Some example_cache) 8589934593 1 =
      Some (round_double
        (quantum_cache_get_random (Some example_cache)
           (unat (swap_halves (8589934593 XOR 1)) mod csize example_cache) * round_double (2 * pi)))"
    using phase_formula [OF pos, of 8589934593 1] by (rule conjunct1)
  also have "\<dots> = Some (round_double (1 / 4 * (2 * M_PI)))"
    by (simp only: idx v round_double_two_pi)
  also have "1 / 4 * (2 * M_PI) = 884279719003555 / 562949953421312"
    by (simp add: M_PI_def)
  finally show ?thesis
    using pos by (simp only: round_double_M_PI_half simp_thms)
qed

text \<open>
  Claim C7. For every cache content and every pair of 64-bit identifiers, the phase of
  \<open>(a, b)\<close> equals the phase of \<open>(b, a)\<close>; the function compared is the source's own
  XOR, 32-bit rotation and modulo.
\<close>

theorem phase_symmetric:
  "compute_quantum_phase g a b = compute_quantum_phase g b a"
  unfolding compute_quantum_phase_def xor.commute [of a b] by (rule refl)

theorem phase_symmetric_witness:
  "compute_quantum_phase (Some example_cache) 8589934593 1 =
   compute_quantum_phase (Some example_cache) 1 8589934593"
  using phase_symmetric [of "Some example_cache" 8589934593 1] by simp

text \<open>
  Claim C4. The lookup and the phase derivation never signal an error: the lookup
  returns exactly \<open>0.5\<close> when the cache is absent or the index is not below the
  capacity, and the phase derivation returns exactly \<open>\<pi>\<close>, as a double (the constant
  \<^verbatim>\<open>M_PI\<close>), when the cache is absent.
\<close>

theorem fallback_constants:
  "quantum_cache_get_random None i = 1 / 2
   \<and> (csize c \<le> i \<longrightarrow> quantum_cache_get_random (Some c) i = 1 / 2)
   \<and> compute_quantum_phase None circuit_id packet_hash = Some (round_double pi)"
  by (simp add: get_random_None get_random_fallback compute_quantum_phase_def round_double_pi)

theorem fallback_constants_witness:
  "quantum_cache_get_random None 7 = 1 / 2
   \<and> csize example_cache \<le> 4
   \<and> quantum_cache_get_random (Some example_cache) 4 = 1 / 2
   \<and> compute_quantum_phase None 1 2 = Some (884279719003555 / 281474976710656)"
  using fallback_constants [of 7 example_cache 1 2] fallback_constants [of 4 example_cache 1 2]
  by (simp add: example_cache_def round_double_pi M_PI_def)

section \<open>Population\<close>

lemma unat_key_step:
  "unat (push_bit 8 (a::64 word) OR ucast (b::8 word)) = (push_bit 8 (unat a) mod 2 ^ 64) OR unat b"
proof -
  have "unat b < 2 ^ 8"
    using unsigned_less [of b] by simp
  then have "unat b mod 2 ^ 64 = unat b"
    by simp
  then show ?thesis
    by (simp add: unsigned_or_eq unsigned_push_bit_eq take_bit_eq_mod unsigned_ucast_eq)
qed

lemma unat_key_foldl:
  "unat (foldl (\<lambda>a b. push_bit 8 a OR ucast b) (acc::64 word) (bs::8 word list)) =
   foldl (\<lambda>K b. (push_bit 8 K mod 2 ^ 64) OR b) (unat acc) (map unat bs)"
  by (induction bs arbitrary: acc) (simp_all add: unat_key_step)

lemma unat_lcg_step:
  "unat ((x::64 word) * word_of_nat a + word_of_nat b) = (unat x * a + b) mod 2 ^ 64"
  by (simp add: unat_word_ariths unsigned_of_nat take_bit_eq_mod mod_simps)

lemma unat_lcg_first:
  "unat ((x::64 word) * 1103515245 + 12345) = (unat x * 1103515245 + 12345) mod 2 ^ 64"
  using unat_lcg_step [of x 1103515245 12345] by simp

lemma unat_lcg_second:
  "unat ((x::64 word) * 1664525 + 1013904223) = (unat x * 1664525 + 1013904223) mod 2 ^ 64"
  using unat_lcg_step [of x 1664525 1013904223] by simp

lemma unat_xor_fold:
  "unat ((x::64 word) XOR drop_bit 32 x) = unat x XOR drop_bit 32 (unat x)"
  by (simp add: unsigned_xor_eq unat_drop_bit_eq)

lemma unat_initial_entropy:
  "i < 2 ^ 64 \<Longrightarrow>
   unat ((ns::64 word) XOR s XOR word_of_nat i XOR K) = unat ns XOR unat s XOR i XOR unat K"
  by (simp add: unsigned_xor_eq unsigned_of_nat take_bit_eq_mod)

lemma unat_mix_entropy:
  "i < 2 ^ 64 \<Longrightarrow>
   unat (mix_entropy ts i K) = spec_entropy (unat (tv_nsec ts)) (unat (tv_sec ts)) i (unat K)"
  unfolding mix_entropy_def spec_entropy_def Let_def and_UINT64_MAX
  by (simp only: unat_lcg_first unat_lcg_second unat_xor_fold unat_initial_entropy)

lemma seed_mix_unat:
  "unat (seed_mix_loop k (strlen k) 0 0) = spec_key_fold (key_bytes k)"
  by (simp add: seed_mix_foldl unat_key_foldl spec_key_fold_def key_bytes_def)

lemma preload_Some:
  "1 \<le> count \<Longrightarrow> count \<le> 10000000 \<Longrightarrow>
   quantum_cache_preload env clock (Some c) (Some api_key) count =
     (0, Some (preload_fill clock api_key count c))"
  by (simp add: quantum_cache_preload_def)

text \<open>
  Claim C6. For every key, every count in \<open>[1, 10 000 000]\<close>, every present cache and
  every sequence of clock samples, \<open>populate\<close> succeeds and stores at each index
  \<open>i < min count capacity\<close> the value \<open>E\<close> of the specification: \<open>K\<close> is the fold of the
  key bytes by shift-left-8 and OR (modulo \<open>2\<^sup>6\<^sup>4\<close>), \<open>E\<close> starts as
  \<open>nanoseconds XOR seconds XOR i XOR K\<close> and goes through the two linear-congruential
  steps with the XOR-fold between them.
\<close>

theorem preload_writes_spec_entropy:
  assumes "1 \<le> count" and "count \<le> 10000000"
    and "length (seeds c) = csize c" and "i < min count (csize c)"
  shows "\<exists>c'. quantum_cache_preload env clock (Some c) (Some api_key) count = (0, Some c')
    \<and> csize c' = csize c \<and> length (seeds c') = csize c
    \<and> unat (seeds c' ! i) =
        spec_entropy (unat (tv_nsec (clock i))) (unat (tv_sec (clock i))) i
          (spec_key_fold (key_bytes api_key))"
proof -
  let ?K = "seed_mix_loop api_key (strlen api_key) 0 0"
  let ?c = "preload_fill clock api_key count c"
  have i: "i < csize c" "i < count"
    using assms(4) by simp_all
  then have "i < 2 ^ 64"
    using assms(2) by simp
  have "seeds ?c ! i = mix_entropy (clock i) i ?K"
    using i assms(3) by (simp add: preload_fill_def preload_loop_nth)
  then have "unat (seeds ?c ! i) =
      spec_entropy (unat (tv_nsec (clock i))) (unat (tv_sec (clock i))) i
        (spec_key_fold (key_bytes api_key))"
    using \<open>i < 2 ^ 64\<close> by (simp only: unat_mix_entropy seed_mix_unat)
  moreover have "csize ?c = csize c" "length (seeds ?c) = csize c"
    using assms(3) by (simp_all add: preload_fill_def preload_loop_csize preload_loop_length)
  ultimately show ?thesis
    using preload_Some [OF assms(1,2)] by blast
qed

theorem preload_writes_spec_entropy_witness:
  "(1::nat) \<le> 3 \<and> (3::nat) \<le> 10000000
   \<and> length (seeds example_cache) = csize example_cache
   \<and> (2::nat) < min 3 (csize example_cache)
   \<and> (\<exists>c'. quantum_cache_preload example_env example_clock (Some example_cache)
            (Some [97, 98, 99]) 3 = (0, Some c')
          \<and> csize c' = 4 \<and> length (seeds c') = 4
          \<and> unat (seeds c' ! 2) = 11414530636947980538)"
proof -
  have c: "length (seeds example_cache) = csize example_cache" "csize example_cache = 4"
    by (simp_all add: example_cache_def)
  have k: "spec_key_fold (key_bytes [97, 98, 99]) = 6382179"
    by (simp add: spec_key_fold_def key_bytes_def)
  have e: "spec_entropy 123456789 86400 2 6382179 = 11414530636947980538"
    by (simp add: spec_entropy_def Let_def)
  show ?thesis
    using preload_writes_spec_entropy [of 3 example_cache 2 example_env example_clock "[97, 98, 99]"]
    by (simp add: c k e example_clock_def)
qed

lemma seed_mix_loop_no_bytes: "seed_mix_loop key 0 i acc = acc"
  by (subst seed_mix_loop.simps) simp

lemma init_codes:
  "1 \<le> count \<Longrightarrow> count \<le> 10000000 \<Longrightarrow>
   fst (quantum_cache_init env g count) = 0 \<or> fst (quantum_cache_init env g count) = - 2
   \<or> fst (quantum_cache_init env g count) = - 3"
  by (simp add: quantum_cache_init_def)

lemma init_succeeds:
  "1 \<le> count \<Longrightarrow> count \<le> 10000000 \<Longrightarrow>
   malloc_cache_ok env \<Longrightarrow> malloc_seeds_ok env \<Longrightarrow> rwlock_init_ok env \<Longrightarrow>
   fst (quantum_cache_init env g count) = 0"
  by (simp add: quantum_cache_init_def)

lemma init_zero_present:
  "fst (quantum_cache_init env None count) = 0 \<Longrightarrow> snd (quantum_cache_init env None count) \<noteq> None"
  by (simp add: quantum_cache_init_def split: if_splits)

lemma preload_return:
  "1 \<le> count \<Longrightarrow> count \<le> 10000000 \<Longrightarrow>
   fst (quantum_cache_preload env clock g (Some key) count) =
     (case g of None \<Rightarrow> fst (quantum_cache_init env None count) | Some c \<Rightarrow> 0)"
  by (cases "quantum_cache_init env None count")
    (simp add: quantum_cache_preload_def split: option.splits)

lemma preload_zero_present:
  assumes "fst (quantum_cache_preload env clock g (Some key) count) = 0"
  shows "snd (quantum_cache_preload env clock g (Some key) count) \<noteq> None"
proof (cases "count = 0 \<or> count > 10000000")
  case True
  then have "fst (quantum_cache_preload env clock g (Some key) count) = - 1"
    by (auto simp: quantum_cache_preload_def)
  then show ?thesis
    using assms by simp
next
  case range: False
  show ?thesis
  proof (cases g)
    case (Some c)
    then show ?thesis
      using range by (simp add: quantum_cache_preload_def)
  next
    case None
    obtain ret g1 where i: "quantum_cache_init env None count = (ret, g1)"
      by (cases "quantum_cache_init env None count")
    have p: "quantum_cache_preload env clock g (Some key) count =
        (if ret \<noteq> 0 then (ret, g1) else (0, map_option (preload_fill clock key count) g1))"
      using range by (simp add: quantum_cache_preload_def None i)
    then have "ret = 0"
      using assms by (simp split: if_splits)
    then have "g1 \<noteq> None"
      using init_zero_present [of env count] i by simp
    then show ?thesis
      using \<open>ret = 0\<close> by (simp add: p)
  qed
qed

text \<open>
  Claim C2 as stated fails: \<open>populate\<close> with an empty key and count \<open>5\<close> on an absent
  cache returns \<open>0\<close> and creates a cache. The source rejects a null pointer only.
\<close>

theorem preload_empty_key_counterexample:
  "fst (quantum_cache_preload example_env example_clock None (Some []) 5) = 0
   \<and> snd (quantum_cache_preload example_env example_clock None (Some []) 5) \<noteq> None"
  by (simp add: quantum_cache_preload_def quantum_cache_init_def example_env_def)

text \<open>
  Claim C2, as amended. \<open>populate\<close> with a missing key (a null pointer) returns \<open>-1\<close>
  (invalid parameters) and leaves the global state as it was: an existing cache is
  unchanged, and no cache is created when none exists. An empty key (one whose first
  byte is the terminator) is not rejected: with a count in \<open>[1, 10 000 000]\<close> and any
  global state, the key accumulator \<open>K\<close> is \<open>0\<close> and the call returns \<open>0\<close>, \<open>-2\<close> or
  \<open>-3\<close>, never \<open>-1\<close>; it returns \<open>0\<close> on a present cache and what \<open>create(count)\<close>
  returns on an absent one, which is \<open>0\<close> when the allocations and the lock
  initialisation succeed; and whenever it returns \<open>0\<close> a cache is present afterwards.
\<close>

theorem preload_null_key:
  "quantum_cache_preload env clock g None count = (- 1, g)
   \<and> (strlen key = 0 \<longrightarrow> 1 \<le> count \<longrightarrow> count \<le> 10000000 \<longrightarrow>
        seed_mix_loop key (strlen key) 0 0 = 0
        \<and> fst (quantum_cache_preload env clock g (Some key) count) =
            (case g of None \<Rightarrow> fst (quantum_cache_init env None count) | Some c \<Rightarrow> 0)
        \<and> (fst (quantum_cache_preload env clock g (Some key) count) = 0
             \<or> fst (quantum_cache_preload env clock g (Some key) count) = - 2
             \<or> fst (quantum_cache_preload env clock g (Some key) count) = - 3)
        \<and> (malloc_cache_ok env \<and> malloc_seeds_ok env \<and> rwlock_init_ok env \<longrightarrow>
             fst (quantum_cache_preload env clock g (Some key) count) = 0)
        \<and> (fst (quantum_cache_preload env clock g (Some key) count) = 0 \<longrightarrow>
             snd (quantum_cache_preload env clock g (Some key) count) \<noteq> None))"
proof -
  have "quantum_cache_preload env clock g None count = (- 1, g)"
    by (simp add: quantum_cache_preload_def)
  moreover have "fst (quantum_cache_preload env clock g (Some key) count) = 0
      \<or> fst (quantum_cache_preload env clock g (Some key) count) = - 2
      \<or> fst (quantum_cache_preload env clock g (Some key) count) = - 3"
    if "1 \<le> count" "count \<le> 10000000"
    using that init_codes [of count env None]
    by (simp add: preload_return split: option.split)
  moreover have "fst (quantum_cache_preload env clock g (Some key) count) = 0"
    if "1 \<le> count" "count \<le> 10000000"
      "malloc_cache_ok env" "malloc_seeds_ok env" "rwlock_init_ok env"
    using that init_succeeds [of count env None]
    by (simp add: preload_return split: option.split)
  ultimately show ?thesis
    using preload_return [of count env clock g key] preload_zero_present [of env clock g key count]
    by (simp add: seed_mix_loop_no_bytes)
qed

theorem preload_null_key_witness:
  "quantum_cache_preload example_env example_clock (Some example_cache) None 5 =
     (- 1, Some example_cache)
   \<and> quantum_cache_preload example_env example_clock None None 5 = (- 1, None)
   \<and> strlen [0, 65, 66] = 0 \<and> (1::nat) \<le> 5 \<and> (5::nat) \<le> 10000000
   \<and> malloc_cache_ok example_env \<and> malloc_seeds_ok example_env \<and> rwlock_init_ok example_env
   \<and> seed_mix_loop [0, 65, 66] (strlen [0, 65, 66]) 0 0 = 0
   \<and> fst (quantum_cache_preload example_env example_clock None (Some [0, 65, 66]) 5) = 0
   \<and> snd (quantum_cache_preload example_env example_clock None (Some [0, 65, 66]) 5) \<noteq> None
   \<and> fst (quantum_cache_preload example_env example_clock (Some example_cache) (Some []) 5) = 0
   \<and> fst (quantum_cache_preload (example_env\<lparr>malloc_seeds_ok := False\<rparr>) example_clock None
          (Some []) 5) = - 2"
proof -
  have s: "strlen [0, 65, 66] = 0" "strlen [] = 0"
    by (simp_all add: strlen_def)
  have e: "malloc_cache_ok example_env" "malloc_seeds_ok example_env" "rwlock_init_ok example_env"
    by (simp_all add: example_env_def)
  have f: "fst (quantum_cache_init (example_env\<lparr>malloc_seeds_ok := False\<rparr>) None 5) = - 2"
    by (simp add: quantum_cache_init_def example_env_def)
  show ?thesis
    using preload_null_key [of example_env example_clock "Some example_cache" 5 "[]"]
      preload_null_key [of example_env example_clock None 5 "[0, 65, 66]"]
      preload_null_key [of "example_env\<lparr>malloc_seeds_ok := False\<rparr>" example_clock None 5 "[]"]
    by (simp add: s e f)
qed

section \<open>The range of the lookup\<close>

lemma saturating_seed_mix:
  "seed_mix_loop saturating_key (strlen saturating_key) 0 0 = 701034791531878657"
  by (simp add: seed_mix_foldl saturating_key_def)

lemma saturating_entropy:
  "mix_entropy (example_clock 0) 0 701034791531878657 = UINT64_MAX"
  by (simp add: mix_entropy_def example_clock_def UINT64_MAX_def Let_def)

text \<open>
  Claim C1 as stated fails: \<open>populate\<close> on an absent cache with the key
  \<open>saturating_key\<close>, count \<open>1\<close> and the clock at \<open>86400 s + 123456789 ns\<close> stores the
  seed \<open>2\<^sup>6\<^sup>4 - 1\<close>, whose conversion to \<^verbatim>\<open>double\<close> is \<open>2\<^sup>6\<^sup>4\<close>: the lookup at index
  \<open>0\<close> returns \<open>1.0\<close>.
\<close>

theorem get_random_one_counterexample:
  "\<not> quantum_cache_get_random
       (snd (quantum_cache_preload example_env example_clock None (Some saturating_key) 1)) 0 < 1"
proof -
  define c where "c = \<lparr>seeds = init_loop (drand48 example_env) 1 0 (replicate 1 0), csize = 1, index = 0\<rparr>"
  have c: "csize c = 1" "length (seeds c) = csize c"
    by (simp_all add: c_def init_loop_length)
  have "quantum_cache_preload example_env example_clock None (Some saturating_key) 1 =
      (0, Some (preload_fill example_clock saturating_key 1 c))"
    by (simp add: quantum_cache_preload_def quantum_cache_init_def example_env_def c_def)
  moreover have "csize (preload_fill example_clock saturating_key 1 c) = 1"
    by (simp add: preload_fill_def preload_loop_csize c)
  moreover have "seeds (preload_fill example_clock saturating_key 1 c) ! 0 = UINT64_MAX"
    using c by (simp add: preload_fill_def preload_loop_nth saturating_seed_mix saturating_entropy)
  ultimately have "quantum_cache_get_random
      (snd (quantum_cache_preload example_env example_clock None (Some saturating_key) 1)) 0 = 1"
    by (simp add: get_random_Some u64_to_double_max)
  then show ?thesis
    by simp
qed

text \<open>
  Claim C1, as amended. For every cache state and every index the lookup returns a
  value in the closed interval \<open>[0, 1]\<close>; at an index below the capacity it returns
  \<open>1.0\<close> exactly when the stored seed is at least \<open>2\<^sup>6\<^sup>4 - 1024\<close>; right after a
  successful \<open>create(capacity)\<close> the lookup at any index below the capacity returns a
  value in \<open>[0, 1)\<close>.
\<close>

theorem get_random_range:
  "0 \<le> quantum_cache_get_random g i \<and> quantum_cache_get_random g i \<le> 1
   \<and> (i < csize c \<longrightarrow>
        (quantum_cache_get_random (Some c) i = 1 \<longleftrightarrow> 2 ^ 64 - 1024 \<le> unat (seeds c ! i)))
   \<and> (quantum_cache_init env g0 capacity = (0, g') \<longrightarrow> i < capacity \<longrightarrow>
        quantum_cache_get_random g' i < 1)"
  using get_random_bounds [of g i] drand48_value_range [of "drand48 env i"]
  by (simp add: get_random_after_init get_random_one_iff)

theorem get_random_range_witness:
  "fst (quantum_cache_init example_env None 2) = 0 \<and> (1::nat) < 2
   \<and> 0 \<le> quantum_cache_get_random (snd (quantum_cache_init example_env None 2)) 1
   \<and> quantum_cache_get_random (snd (quantum_cache_init example_env None 2)) 1 < 1
   \<and> 1 < csize example_cache
   \<and> quantum_cache_get_random (Some example_cache) 1 \<noteq> 1
   \<and> quantum_cache_get_random (Some \<lparr>seeds = [0, 18446744073709550592], csize = 2, index = 0\<rparr>) 1 = 1"
proof -
  have ret: "fst (quantum_cache_init example_env None 2) = 0"
    by (simp add: quantum_cache_init_def example_env_def)
  then have "quantum_cache_init example_env None 2 = (0, snd (quantum_cache_init example_env None 2))"
    by (simp add: prod_eq_iff)
  then show ?thesis
    using ret
      get_random_range [of "snd (quantum_cache_init example_env None 2)" 1 example_cache
        example_env None 2 "snd (quantum_cache_init example_env None 2)"]
      get_random_range [of None 1 "\<lparr>seeds = [0, 18446744073709550592], csize = 2, index = 0\<rparr>"
        example_env None 0 None]
    by (simp add: example_cache_def)
qed

section \<open>Reachable states\<close>

lemma cache_inv_None: "cache_inv None"
  by (simp add: cache_inv_def)

lemma init_inv: "cache_inv g \<Longrightarrow> cache_inv (snd (quantum_cache_init env g n))"
  by (simp add: quantum_cache_init_def cache_inv_def init_loop_length)

lemma destroy_inv: "cache_inv (quantum_cache_destroy g)"
  by (simp add: quantum_cache_destroy_def cache_inv_def split: option.split)

lemma preload_fill_inv: "cache_inv (Some c) \<Longrightarrow> cache_inv (Some (preload_fill clock k count c))"
  by (simp add: cache_inv_def preload_fill_def preload_loop_csize preload_loop_length)

lemma map_preload_fill_inv:
  "cache_inv g \<Longrightarrow> cache_inv (map_option (preload_fill clock k count) g)"
  by (cases g) (simp_all add: cache_inv_None preload_fill_inv)

lemma preload_inv:
  assumes "cache_inv g"
  shows "cache_inv (snd (quantum_cache_preload env clock g api_key count))"
proof (cases g)
  case None
  have "cache_inv (snd (quantum_cache_init env None count))"
    by (rule init_inv) (rule cache_inv_None)
  then show ?thesis
    unfolding None quantum_cache_preload_def
    by (cases "quantum_cache_init env None count")
      (auto simp: cache_inv_None map_preload_fill_inv split: option.splits)
next
  case (Some c)
  then show ?thesis
    using assms preload_fill_inv [of c clock _ count]
    by (simp add: quantum_cache_preload_def split: option.splits)
qed

lemma exec_inv: "cache_inv g \<Longrightarrow> cache_inv (exec g call)"
  by (cases call) (simp_all add: init_inv destroy_inv preload_inv)

lemma foldl_exec_inv: "cache_inv g \<Longrightarrow> cache_inv (foldl exec g cs)"
  by (induction cs arbitrary: g) (simp_all add: exec_inv)

lemma run_inv: "cache_inv (run cs)"
  unfolding run_def by (rule foldl_exec_inv) (rule cache_inv_None)

lemma example_run_state:
  "run example_run =
     Some (preload_fill example_clock [97, 98, 99] 2
       \<lparr>seeds = init_loop (drand48 example_env) 3 0 (replicate 3 0), csize = 3, index = 0\<rparr>)"
  by (simp add: run_def example_run_def quantum_cache_init_def quantum_cache_preload_def
      example_env_def)

text \<open>
  Claim C9. In every state reached from the initial absent cache by any sequence of
  \<open>create\<close>, \<open>destroy\<close>, \<open>populate\<close>, \<open>getRandom\<close> and \<open>computePhase\<close> calls, a present
  cache has its capacity in \<open>[1, 10 000 000]\<close> and exactly that many seeds, and the
  index computation \<open>combined mod capacity\<close> of the phase derivation does not divide by
  zero.
\<close>

theorem reachable_cache_wellformed:
  assumes "run cs = Some c"
  shows "1 \<le> csize c \<and> csize c \<le> 10000000 \<and> length (seeds c) = csize c
    \<and> compute_quantum_phase (Some c) circuit_id packet_hash \<noteq> None"
proof -
  have "cache_inv (Some c)"
    using run_inv [of cs] assms by simp
  then show ?thesis
    by (simp add: cache_inv_def compute_quantum_phase_def Let_def)
qed

theorem reachable_cache_wellformed_witness:
  "run example_run \<noteq> None
   \<and> csize (the (run example_run)) = 3
   \<and> length (seeds (the (run example_run))) = 3
   \<and> compute_quantum_phase (run example_run) 1 2 \<noteq> None"
proof -
  obtain c where c: "run example_run = Some c"
    using example_run_state by simp
  have "c = preload_fill example_clock [97, 98, 99] 2
      \<lparr>seeds = init_loop (drand48 example_env) 3 0 (replicate 3 0), csize = 3, index = 0\<rparr>"
    using c unfolding example_run_state by simp
  then have "csize c = 3"
    by (simp only: preload_fill_def Let_def preload_loop_csize quantum_cache.select_convs)
  then show ?thesis
    using reachable_cache_wellformed [OF c, of 1 2] by (simp add: c)
qed

subsection \<open>The cursor\<close>

lemma cursor_inv_None: "cursor_inv None"
  by (simp add: cursor_inv_def)

lemma init_cursor: "cursor_inv g \<Longrightarrow> cursor_inv (snd (quantum_cache_init env g n))"
  by (simp add: quantum_cache_init_def cursor_inv_def)

lemma destroy_cursor: "cursor_inv (quantum_cache_destroy g)"
  by (simp add: quantum_cache_destroy_def cursor_inv_def split: option.split)

lemma preload_fill_index: "index (preload_fill clock k count c) = index c"
  by (simp add: preload_fill_def preload_loop_index)

lemma map_preload_fill_cursor:
  "cursor_inv g \<Longrightarrow> cursor_inv (map_option (preload_fill clock k count) g)"
  by (cases g) (simp_all add: cursor_inv_def preload_fill_index)

lemma preload_cursor:
  assumes "cursor_inv g"
  shows "cursor_inv (snd (quantum_cache_preload env clock g api_key count))"
proof (cases g)
  case None
  have "cursor_inv (snd (quantum_cache_init env None count))"
    by (rule init_cursor) (rule cursor_inv_None)
  then show ?thesis
    unfolding None quantum_cache_preload_def
    by (cases "quantum_cache_init env None count")
      (auto simp: cursor_inv_None map_preload_fill_cursor split: option.splits)
next
  case (Some c)
  then show ?thesis
    using assms map_preload_fill_cursor [of g clock _ count]
    by (simp add: quantum_cache_preload_def split: option.splits)
qed

lemma exec_cursor: "cursor_inv g \<Longrightarrow> cursor_inv (exec g call)"
  by (cases call) (simp_all add: init_cursor destroy_cursor preload_cursor)

lemma foldl_exec_cursor: "cursor_inv g \<Longrightarrow> cursor_inv (foldl exec g cs)"
  by (induction cs arbitrary: g) (simp_all add: exec_cursor)

lemma run_cursor: "cursor_inv (run cs)"
  unfolding run_def by (rule foldl_exec_cursor) (rule cursor_inv_None)

lemma preload_keeps_index:
  "map_option index (snd (quantum_cache_preload env clock (Some d) api_key count)) = Some (index d)"
  by (simp add: quantum_cache_preload_def preload_fill_index split: option.splits)

lemma preload_fill_index_update:
  "preload_fill clock key count (d\<lparr>index := k\<rparr>) = (preload_fill clock key count d)\<lparr>index := k\<rparr>"
  by (simp add: preload_fill_def preload_loop_index_update)

lemma preload_ignores_index:
  "quantum_cache_preload env clock (Some (d\<lparr>index := k\<rparr>)) api_key count =
   map_prod id (map_option (\<lambda>c. c\<lparr>index := k\<rparr>))
     (quantum_cache_preload env clock (Some d) api_key count)"
  by (simp add: quantum_cache_preload_def preload_fill_index_update split: option.splits)

lemma get_random_ignores_index:
  "quantum_cache_get_random (Some (d\<lparr>index := k\<rparr>)) i = quantum_cache_get_random (Some d) i"
  by (simp add: quantum_cache_get_random_def)

lemma phase_ignores_index:
  "compute_quantum_phase (Some (d\<lparr>index := k\<rparr>)) a b = compute_quantum_phase (Some d) a b"
  by (simp add: compute_quantum_phase_def get_random_ignores_index Let_def)

text \<open>
  Claim C10. The cursor (the \<^verbatim>\<open>index\<close> member) is zero in every reachable state with
  a cache present; a successful \<open>create\<close> sets it to zero; \<open>populate\<close> leaves it as it
  is; and neither \<open>populate\<close> nor the lookup nor the phase derivation reads it: their
  results do not depend on its value.
\<close>

theorem cursor_unused:
  "(run cs = Some c \<longrightarrow> index c = 0)
   \<and> (quantum_cache_init env g n = (0, Some c0) \<longrightarrow> index c0 = 0)
   \<and> map_option index (snd (quantum_cache_preload env clock (Some d) api_key count)) =
       Some (index d)
   \<and> quantum_cache_preload env clock (Some (d\<lparr>index := k\<rparr>)) api_key count =
       map_prod id (map_option (\<lambda>c. c\<lparr>index := k\<rparr>))
         (quantum_cache_preload env clock (Some d) api_key count)
   \<and> quantum_cache_get_random (Some (d\<lparr>index := k\<rparr>)) i = quantum_cache_get_random (Some d) i
   \<and> compute_quantum_phase (Some (d\<lparr>index := k\<rparr>)) a b = compute_quantum_phase (Some d) a b"
proof -
  have "run cs = Some c \<longrightarrow> index c = 0"
    using run_cursor [of cs] by (auto simp: cursor_inv_def)
  moreover have "quantum_cache_init env g n = (0, Some c0) \<longrightarrow> index c0 = 0"
    by (auto simp: quantum_cache_init_def split: if_splits)
  ultimately show ?thesis
    by (simp only: preload_keeps_index preload_ignores_index get_random_ignores_index
        phase_ignores_index simp_thms)
qed

theorem cursor_unused_witness:
  "run example_run \<noteq> None \<and> index (the (run example_run)) = 0
   \<and> fst (quantum_cache_init example_env None 2) = 0
   \<and> snd (quantum_cache_init example_env None 2) \<noteq> None
   \<and> index (the (snd (quantum_cache_init example_env None 2))) = 0
   \<and> map_option index
        (snd (quantum_cache_preload example_env example_clock (Some (example_cache\<lparr>index := 7\<rparr>))
           (Some [97, 98, 99]) 2)) = Some 7"
proof -
  obtain c where c: "run example_run = Some c"
    using example_run_state by simp
  obtain c0 where c0: "quantum_cache_init example_env None 2 = (0, Some c0)"
    by (simp add: quantum_cache_init_def example_env_def)
  show ?thesis
    using cursor_unused [of example_run c example_env None 2 c0 example_clock
        "example_cache\<lparr>index := 7\<rparr>" "Some [97, 98, 99]" 2 7 0 1 2]
    by (simp add: c c0)
qed

end
